theory Spec2Isabelle
  imports Main "HOL-Library.Word" "HOL-Library.Sublist"
begin

section \<open>Go values used by the bot\<close>

text \<open>
  Go strings are byte sequences: \<open>string\<close> (a list of 8-bit characters), and \<open>len\<close> is
  \<open>length\<close>. An \<open>error\<close> is represented by its message, \<open>nil\<close> by \<open>None\<close>. \<open>int64\<close> is a
  64-bit word read through \<open>sint\<close>; \<open>+\<close> and \<open>-\<close> wrap as in Go.
\<close>

type_synonym error = string
type_synonym int64 = "64 word"

datatype go_panic = SliceBoundsOutOfRange

text \<open>\<open>s[:n]\<close> on a Go string: a run-time panic unless \<open>n \<le> len(s)\<close>.\<close>

definition slice_to :: "string \<Rightarrow> nat \<Rightarrow> go_panic + string" where
  "slice_to s n = (if n \<le> length s then Inr (take n s) else Inl SliceBoundsOutOfRange)"

text \<open>\<open>strings.Split(s, "/")\<close> for a one-byte separator: never empty, \<open>[""]\<close> on \<open>""\<close>.\<close>

fun Split :: "string \<Rightarrow> char \<Rightarrow> string list" where
  "Split [] sep = [[]]"
| "Split (c # cs) sep =
     (if c = sep then [] # Split cs sep
      else (case Split cs sep of [] \<Rightarrow> [[c]] | w # ws \<Rightarrow> (c # w) # ws))"

text \<open>\<open>strings.HasSuffix\<close>.\<close>

definition HasSuffix :: "string \<Rightarrow> string \<Rightarrow> bool" where
  "HasSuffix s suf =
     (length suf \<le> length s \<and> drop (length s - length suf) s = suf)"

text \<open>
  \<open>strings.ToLower\<close>. A string of ASCII bytes only is lowered byte by byte, \<open>A\<close> to \<open>Z\<close>.
  On any other string Go maps \<open>unicode.ToLower\<close> over the runes, by the case tables of
  its library (U+0130 becomes \<open>i\<close>, an invalid byte becomes U+FFFD): that mapping is not
  modelled, it is the parameter \<open>ulower\<close> of every function that lowers a string.
\<close>

definition lower_byte :: "char \<Rightarrow> char" where
  "lower_byte c =
     (let n = (of_char c :: nat) in if 65 \<le> n \<and> n \<le> 90 then char_of (n + 32) else c)"

definition isASCII :: "string \<Rightarrow> bool" where
  "isASCII s = list_all (\<lambda>c. (of_char c :: nat) < 128) s"

definition ToLower :: "(string \<Rightarrow> string) \<Rightarrow> string \<Rightarrow> string" where
  "ToLower ulower s = (if isASCII s then map lower_byte s else ulower s)"

text \<open>\<open>strconv.FormatInt(i, 10)\<close>: the decimal digits, with a leading minus sign.\<close>

definition digit :: "nat \<Rightarrow> char" where
  "digit d = ''0123456789'' ! d"

fun FormatUint :: "nat \<Rightarrow> string" where
  "FormatUint n = (if n < 10 then [digit n] else FormatUint (n div 10) @ [digit (n mod 10)])"

declare FormatUint.simps [simp del]

definition FormatInt :: "int64 \<Rightarrow> string" where
  "FormatInt i =
     (if sint i < 0 then CHR ''-'' # FormatUint (nat (- sint i)) else FormatUint (nat (sint i)))"

section \<open>Resources and reply messages\<close>

text \<open>
  Modelled from the spec: the declarations of \<open>Resource\<close>, \<open>ReplyMessage\<close> and of the
  resource kinds \<open>TIMAGE\<close> and \<open>TVIDEO\<close> (package \<open>fetchers\<close>) are not among the source
  files. A resource is \<open>{url, kind, captionSourceURL}\<close>, a reply message is
  \<open>{resources, caption, error}\<close>; the fields are named as the code reads them
  (\<open>r.URL\<close>, \<open>r.T\<close>, \<open>message.Resources\<close>, \<open>message.Caption\<close>, \<open>message.Err\<close>) and
  ordered as its struct literals fill them. The two kinds are distinct values of a type
  that has others, since the code tests for "neither"; \<open>TOTHER n\<close> stands for those.
\<close>

datatype kind = TIMAGE | TVIDEO | TOTHER nat

datatype Resource = Resource (URL: string) (T: kind) (ResCaption: string)

datatype ReplyMessage =
  ReplyMessage (Resources: "Resource list") (Caption: string) (Err: "error option")

section \<open>The persistent store and the dedup cache\<close>

text \<open>
  The storm database, as the code uses it: buckets of keys, \<open>Get(bucket, key, &v)\<close> that
  fails when the key is absent or holds a value of another type, and
  \<open>Set(bucket, key, v)\<close> that returns an error. A store whose \<open>write_fault\<close> is set
  rejects every \<open>Set\<close> (a full disk, a closed file) and keeps its contents. \<open>set_log\<close>
  records every \<open>Set\<close> that was issued, accepted or not, so that "performs a write" can be
  told from "leaves the value as it was".
\<close>

datatype db_value = VInt64 int64 | VBool bool

record store =
  kv :: "string \<times> string \<rightharpoonup> db_value"
  write_fault :: bool
  set_log :: "(string \<times> string \<times> db_value) list"

definition DB_Set :: "store \<Rightarrow> string \<Rightarrow> string \<Rightarrow> db_value \<Rightarrow> error option \<times> store" where
  "DB_Set db bucket key v =
     (let db1 = db\<lparr>set_log := set_log db @ [(bucket, key, v)]\<rparr>
      in if write_fault db then (Some ''storm: write failed'', db1)
         else (None, db1\<lparr>kv := (kv db)((bucket, key) \<mapsto> v)\<rparr>))"

definition DB_Get_int64 :: "store \<Rightarrow> string \<Rightarrow> string \<Rightarrow> error + int64" where
  "DB_Get_int64 db bucket key =
     (case kv db (bucket, key) of Some (VInt64 v) \<Rightarrow> Inr v | _ \<Rightarrow> Inl ''not found'')"

definition DB_Get_bool :: "store \<Rightarrow> string \<Rightarrow> string \<Rightarrow> error + bool" where
  "DB_Get_bool db bucket key =
     (case kv db (bucket, key) of Some (VBool b) \<Rightarrow> Inr b | _ \<Rightarrow> Inl ''not found'')"

text \<open>
  The go-cache instance is the map of the keys that are set and have not expired;
  \<open>cache.Get\<close> finds exactly those. Expiry happens in real time, outside every call
  modelled here: no key expires during a call or between two calls that are composed.
\<close>

type_synonym dedup_cache = "string \<rightharpoonup> bool"

section \<open>The Tumblr feed\<close>

text \<open>
  The dynamic value of \<open>Trail[i].Post.ID\<close> (an \<open>interface{}\<close>): the code asserts \<open>string\<close>
  and \<open>int64\<close>; \<open>IFloat64\<close> (what \<open>encoding/json\<close> stores for a JSON number), \<open>INil\<close> and
  \<open>IOther\<close> are the dynamic types that match neither assertion.
\<close>

datatype iface = INil | IString string | IInt64 int64 | IFloat64 | IOther

text \<open>The fields of a post that \<open>getUserTimeline\<close> reads; a photo is its \<open>OriginalSize.URL\<close>,
  a trail entry its \<open>Post.ID\<close>.\<close>

record Post =
  Type :: string
  ID :: int64
  Timestamp :: int64
  ShortURL :: string
  Trail :: "iface list"
  VideoURL :: string
  Photos :: "string list"

record TumblrPosts =
  Status :: int
  Posts :: "Post list"

text \<open>
  What the remote gives for a request: \<open>HTTPGet\<close> fails, or the body does not decode, or
  it decodes to a \<open>TumblrPosts\<close>. The remote is a function of the URL requested.
\<close>

datatype response = HTTPError error | DecodeError error | Decoded TumblrPosts

type_synonym remote = "string \<Rightarrow> response"

record TumblrFetcher =
  OAuthConsumerKey :: string
  cache :: dedup_cache
  DB :: store

section \<open>fetchers/tumblr.go\<close>

text \<open>Lines 111 to 123: the id under which a post is deduplicated.\<close>

definition msgid_of :: "Post \<Rightarrow> string" where
  "msgid_of p =
     (let msgid = FormatInt (ID p) in
      if length (Trail p) > 1 then
        (let t0 = hd (Trail p);
             msgid = (case t0 of IString msgid_str \<Rightarrow> if msgid_str \<noteq> [] then msgid_str else msgid
                      | _ \<Rightarrow> msgid);
             msgid = (case t0 of IInt64 msgid_int64 \<Rightarrow>
                         if msgid_int64 \<noteq> 0 then FormatInt msgid_int64 else msgid
                      | _ \<Rightarrow> msgid)
         in msgid)
      else msgid)"

text \<open>Line 124: the cache key.\<close>

definition cache_key :: "string \<Rightarrow> Post \<Rightarrow> string" where
  "cache_key user p = user @ ''@'' @ msgid_of p"

text \<open>Lines 132 to 150: the photos of a post, without the blocked ones.\<close>

fun photo_loop :: "(string \<Rightarrow> string) \<Rightarrow> store \<Rightarrow> string \<Rightarrow> string list \<Rightarrow> Resource list \<Rightarrow> Resource list" where
  "photo_loop ulower db user [] res = res"
| "photo_loop ulower db user (url # photos) res =
     (let tType = (if HasSuffix (ToLower ulower url) ''.gif'' then TVIDEO else TIMAGE);
          strsplit = Split url CHR ''/''
      in if length strsplit \<ge> 4 \<and>
            DB_Get_bool db ''block'' (user @ ''@'' @ strsplit ! 3) = Inr True
         then photo_loop ulower db user photos res
         else photo_loop ulower db user photos (res @ [Resource url tType url]))"

text \<open>Lines 131 to 153: the resources of one post.\<close>

definition post_resources :: "(string \<Rightarrow> string) \<Rightarrow> store \<Rightarrow> string \<Rightarrow> Post \<Rightarrow> Resource list" where
  "post_resources ulower db user p =
     (let res = photo_loop ulower db user (Photos p) []
      in if VideoURL p \<noteq> [] then res @ [Resource (VideoURL p) TVIDEO (VideoURL p)] else res)"

text \<open>Lines 103 to 158: the loop over the posts; \<open>break\<close> returns what was collected.\<close>

fun posts_loop ::
  "(string \<Rightarrow> string) \<Rightarrow> store \<Rightarrow> string \<Rightarrow> int64 \<Rightarrow> Post list \<Rightarrow> dedup_cache \<Rightarrow> ReplyMessage list
     \<Rightarrow> ReplyMessage list \<times> dedup_cache" where
  "posts_loop ulower db user time [] c ret = (ret, c)"
| "posts_loop ulower db user time (p # ps) c ret =
     (if Type p \<noteq> ''photo'' \<and> Type p \<noteq> ''video'' then posts_loop ulower db user time ps c ret
      else if sint (Timestamp p) < sint time then (ret, c)
      else
        (let msgid = cache_key user p
         in if c msgid \<noteq> None then posts_loop ulower db user time ps c ret
            else
              (let c' = c(msgid \<mapsto> True);
                   res = post_resources ulower db user p
               in if length res > 0
                  then posts_loop ulower db user time ps c' (ret @ [ReplyMessage res (ShortURL p) None])
                  else posts_loop ulower db user time ps c' ret)))"

definition api_url :: "string \<Rightarrow> string \<Rightarrow> string" where
  "api_url user key =
     ''https://api.tumblr.com/v2/blog/'' @ user @ ''.tumblr.com/posts?api_key='' @ key"

definition getUserTimeline ::
  "(string \<Rightarrow> string) \<Rightarrow> TumblrFetcher \<Rightarrow> remote \<Rightarrow> string \<Rightarrow> int64
     \<Rightarrow> (ReplyMessage list \<times> error option) \<times> TumblrFetcher" where
  "getUserTimeline ulower f rem user time =
     (if OAuthConsumerKey f = [] then (([], Some ''Need API key.''), f)
      else
        (case rem (api_url user (OAuthConsumerKey f)) of
           HTTPError err \<Rightarrow> (([], Some err), f)
         | DecodeError err \<Rightarrow> (([], Some err), f)
         | Decoded posts \<Rightarrow>
             if Status posts \<noteq> 200 then (([], Some ''Tumblr api error.''), f)
             else
               (let (ret, c) = posts_loop ulower (DB f) user time (Posts posts) (cache f) []
                in ((ret, None), f\<lparr>cache := c\<rparr>))))"

text \<open>Lines 168 to 173: one fetch for each followed source, errors dropped.\<close>

fun follow_loop ::
  "(string \<Rightarrow> string) \<Rightarrow> TumblrFetcher \<Rightarrow> remote \<Rightarrow> int64 \<Rightarrow> string list \<Rightarrow> ReplyMessage list
     \<Rightarrow> ReplyMessage list \<times> TumblrFetcher" where
  "follow_loop ulower f rem last_update [] ret = (ret, f)"
| "follow_loop ulower f rem last_update (follow # followings) ret =
     (let ((single, err), f') = getUserTimeline ulower f rem follow last_update
      in if err = None then follow_loop ulower f' rem last_update followings (ret @ single)
         else follow_loop ulower f' rem last_update followings ret)"

text \<open>\<open>GetPush\<close>; \<open>now\<close> is what \<open>time.Now().Unix()\<close> reads.\<close>

definition GetPush ::
  "(string \<Rightarrow> string) \<Rightarrow> TumblrFetcher \<Rightarrow> remote \<Rightarrow> int64 \<Rightarrow> string \<Rightarrow> string list
     \<Rightarrow> ReplyMessage list \<times> TumblrFetcher" where
  "GetPush ulower f rem now userid followings =
     (let last_update = (case DB_Get_int64 (DB f) ''last_update'' userid of
                           Inl err \<Rightarrow> 0 | Inr v \<Rightarrow> v);
          (ret, f') = follow_loop ulower f rem last_update followings []
      in if length ret \<noteq> 0
         then (ret, f'\<lparr>DB := snd (DB_Set (DB f') ''last_update'' userid (VInt64 now))\<rparr>)
         else (ret, f'))"

text \<open>\<open>GoBack\<close>: the error returned and the fetcher afterwards.\<close>

definition GoBack :: "TumblrFetcher \<Rightarrow> int64 \<Rightarrow> string \<Rightarrow> int64 \<Rightarrow> error option \<times> TumblrFetcher" where
  "GoBack f now userid back =
     (if sint back > sint now then (Some ''Back too long!'', f)
      else (let (err, db) = DB_Set (DB f) ''last_update'' userid (VInt64 (now - back))
            in (err, f\<lparr>DB := db\<rparr>)))"

text \<open>\<open>Block\<close>: the reply and the fetcher afterwards.\<close>

definition Block :: "TumblrFetcher \<Rightarrow> string \<Rightarrow> string \<Rightarrow> string \<times> TumblrFetcher" where
  "Block f userid caption =
     (let strsplit = Split caption CHR ''/''
      in if length strsplit \<ge> 4
         then (let imghash = userid @ ''@'' @ strsplit ! 3
               in (imghash @ '' blocked.'',
                   f\<lparr>DB := snd (DB_Set (DB f) ''block'' imghash (VBool True))\<rparr>))
         else (''Unrecognized image caption.'', f))"

section \<open>The Telegram side: \<open>Send\<close>\<close>

text \<open>
  The telebot library is the transport. What the bot is asked to send is kept as a list of
  calls, in order; what each call returns is given by the transport, a function of the call.
  An \<open>InputMedia\<close> variable that was never assigned is the nil interface, \<open>None\<close>.
\<close>

type_synonym Recipient = string

datatype InputMedia = Photo string string | Video string string

datatype sendable = Text string | Media "InputMedia option"

datatype bot_call = BotSend Recipient sendable | BotSendAlbum Recipient "InputMedia list"

type_synonym transport = "bot_call \<Rightarrow> error option"

definition MaxAlbumSize :: nat where
  "MaxAlbumSize = 10"

text \<open>Lines 98 to 106: the album of one batch; a resource of another kind is passed over.\<close>

fun album_of :: "string \<Rightarrow> Resource list \<Rightarrow> InputMedia list \<Rightarrow> InputMedia list" where
  "album_of caption [] mediaFiles = mediaFiles"
| "album_of caption (r # rs) mediaFiles =
     (if T r = TIMAGE then album_of caption rs (mediaFiles @ [Photo (URL r) caption])
      else if T r = TVIDEO then album_of caption rs (mediaFiles @ [Video (URL r) caption])
      else album_of caption rs mediaFiles)"

text \<open>Lines 91 to 114: the loop over the batches, from index \<open>i\<close>.\<close>

function album_loop ::
  "transport \<Rightarrow> Recipient \<Rightarrow> ReplyMessage \<Rightarrow> nat \<Rightarrow> error option \<Rightarrow> bot_call list
     \<Rightarrow> error option \<times> bot_call list" where
  "album_loop tb to message i ret calls =
     (if i < length (Resources message) then
        (let end = (if i + MaxAlbumSize > length (Resources message)
                    then length (Resources message) else i + MaxAlbumSize);
             mediaFiles = album_of (Caption message)
                            (take (end - i) (drop i (Resources message))) [];
             call = BotSendAlbum to mediaFiles
         in album_loop tb to message (i + MaxAlbumSize)
              (case tb call of Some err \<Rightarrow> Some err | None \<Rightarrow> ret) (calls @ [call]))
      else (ret, calls))"
  by pat_completeness auto
termination
  by (relation "measure (\<lambda>(tb, to, message, i, ret, calls). length (Resources message) - i)")
     (auto simp: MaxAlbumSize_def)

declare album_loop.simps [simp del]

text \<open>
  \<open>Send\<close>: a panic, or the error returned with the calls made. In the branch for one
  resource the error of an unknown kind is assigned to \<open>err\<close>, and \<open>err\<close> is assigned
  again by the send that follows.
\<close>

definition Send :: "transport \<Rightarrow> Recipient \<Rightarrow> ReplyMessage \<Rightarrow> go_panic + error option \<times> bot_call list" where
  "Send tb to message =
     (case Err message of
        Some e \<Rightarrow> Inr (Some e, [])
      | None \<Rightarrow>
          if length (Resources message) = 1 then
            (case (if length (Caption message) \<ge> 190 then slice_to (Caption message) 191
                   else Inr (Caption message)) of
               Inl p \<Rightarrow> Inl p
             | Inr caption \<Rightarrow>
                 (let r = hd (Resources message);
                      (mediaFile, err) =
                        (if T r = TIMAGE then (Some (Photo (URL r) caption), None)
                         else if T r = TVIDEO then (Some (Video (URL r) caption), None)
                         else (None, Some ''Undefined message type.''));
                      call = BotSend to (Media mediaFile);
                      err = tb call
                  in Inr (err, [call])))
          else if length (Resources message) = 0 then
            (let call = BotSend to (Text (Caption message))
             in case tb call of
                  Some err \<Rightarrow> Inr (Some err, [call])
                | None \<Rightarrow> Inr (album_loop tb to message 0 None [call]))
          else Inr (album_loop tb to message 0 None []))"

section \<open>Auxiliary definitions\<close>

text \<open>\<open>strings.Join\<close> with a one-byte separator, to say what \<open>Split\<close> computes.\<close>

fun Join :: "string list \<Rightarrow> char \<Rightarrow> string" where
  "Join [] sep = []"
| "Join [w] sep = w"
| "Join (w # v # ws) sep = w @ sep # Join (v # ws) sep"

text \<open>A fetcher with an empty cache and an empty store, and one whose store rejects writes.\<close>

definition f0 :: TumblrFetcher where
  "f0 = \<lparr>OAuthConsumerKey = ''key'', cache = Map.empty,
         DB = \<lparr>kv = Map.empty, write_fault = False, set_log = []\<rparr>\<rparr>"

definition f_fault :: TumblrFetcher where
  "f_fault = \<lparr>OAuthConsumerKey = ''key'', cache = Map.empty,
              DB = \<lparr>kv = Map.empty, write_fault = True, set_log = []\<rparr>\<rparr>"

text \<open>
  A post with id 12345 and reblogs of it with id 999: the trail of the first has one
  entry, the trail of the second has two, the trail of the third has two and its first
  entry carries the empty string.
\<close>

definition original_post :: Post where
  "original_post = \<lparr>Type = ''photo'', ID = 12345, Timestamp = 500,
     ShortURL = ''https://tmblr.co/orig'', Trail = [],
     VideoURL = [], Photos = [''https://64.media.tumblr.com/aaa/a.jpg'']\<rparr>"

definition reblog_short :: Post where
  "reblog_short = \<lparr>Type = ''photo'', ID = 999, Timestamp = 400,
     ShortURL = ''https://tmblr.co/re1'', Trail = [IString ''12345''],
     VideoURL = [], Photos = [''https://64.media.tumblr.com/aaa/a.jpg'']\<rparr>"

definition reblog_long :: Post where
  "reblog_long = \<lparr>Type = ''photo'', ID = 999, Timestamp = 400,
     ShortURL = ''https://tmblr.co/re2'', Trail = [IString ''12345'', IString ''999''],
     VideoURL = [], Photos = [''https://64.media.tumblr.com/aaa/a.jpg'']\<rparr>"

definition reblog_empty :: Post where
  "reblog_empty = \<lparr>Type = ''photo'', ID = 999, Timestamp = 400,
     ShortURL = ''https://tmblr.co/re3'', Trail = [IString [], IString ''999''],
     VideoURL = [], Photos = [''https://64.media.tumblr.com/aaa/a.jpg'']\<rparr>"

text \<open>
  The spec's batches: consecutive runs of at most \<open>n\<close> elements, each full but the last.
\<close>

function spec_batches :: "nat \<Rightarrow> 'a list \<Rightarrow> 'a list list" where
  "spec_batches n xs = (if n = 0 \<or> xs = [] then [] else take n xs # spec_batches n (drop n xs))"
  by pat_completeness auto
termination
  by (relation "measure (\<lambda>(n, xs). length xs)") auto

declare spec_batches.simps [simp del]

text \<open>Lines 99 to 102: the media of a resource that is an image or a video.\<close>

definition media_of :: "string \<Rightarrow> Resource \<Rightarrow> InputMedia" where
  "media_of caption r = (if T r = TIMAGE then Photo (URL r) caption else Video (URL r) caption)"

text \<open>A message with 23 images.\<close>

definition m23 :: ReplyMessage where
  "m23 = ReplyMessage (replicate 23 (Resource ''https://64.media.tumblr.com/aaa/a.jpg'' TIMAGE
            ''https://64.media.tumblr.com/aaa/a.jpg'')) ''https://tmblr.co/orig'' None"

text \<open>
  Lines 104 to 109: the posts that the loop goes on to deduplicate, those of type
  \<open>photo\<close> or \<open>video\<close> before the first of them that is older than the cursor.
\<close>

fun enumerated :: "int64 \<Rightarrow> Post list \<Rightarrow> Post list" where
  "enumerated time [] = []"
| "enumerated time (p # ps) =
     (if Type p \<noteq> ''photo'' \<and> Type p \<noteq> ''video'' then enumerated time ps
      else if sint (Timestamp p) < sint time then []
      else p # enumerated time ps)"

text \<open>Lines 163 to 166: the cursor as \<open>GetPush\<close> reads it, zero when the read fails.\<close>

definition cursor_of :: "store \<Rightarrow> string \<Rightarrow> int64" where
  "cursor_of db userid =
     (case DB_Get_int64 db ''last_update'' userid of Inl err \<Rightarrow> 0 | Inr v \<Rightarrow> v)"

text \<open>A post with no photo and no video, and a feed with it.\<close>

definition empty_post :: Post where
  "empty_post = \<lparr>Type = ''photo'', ID = 777, Timestamp = 450,
     ShortURL = ''https://tmblr.co/none'', Trail = [], VideoURL = [], Photos = []\<rparr>"

definition rem1 :: remote where
  "rem1 url = Decoded \<lparr>Status = 200, Posts = [original_post, empty_post]\<rparr>"

text \<open>
  A fetcher whose store holds the cursor 1700000000 for a subscriber, and a feed with one
  post stamped five seconds after that cursor.
\<close>

definition late_post :: Post where
  "late_post = \<lparr>Type = ''photo'', ID = 4242, Timestamp = 1700000005,
     ShortURL = ''https://tmblr.co/late'', Trail = [],
     VideoURL = [], Photos = [''https://64.media.tumblr.com/aaa/a.jpg'']\<rparr>"

definition rem_late :: remote where
  "rem_late url = Decoded \<lparr>Status = 200, Posts = [late_post]\<rparr>"

definition f_cursor :: TumblrFetcher where
  "f_cursor = \<lparr>OAuthConsumerKey = ''key'', cache = Map.empty,
      DB = \<lparr>kv = [(''last_update'', ''chan'') \<mapsto> VInt64 1700000000],
             write_fault = False, set_log = []\<rparr>\<rparr>"

text \<open>Lines 138 to 146: the test under which a photo is left out.\<close>

definition is_blocked :: "store \<Rightarrow> string \<Rightarrow> string \<Rightarrow> bool" where
  "is_blocked db user url =
     (let strsplit = Split url CHR ''/''
      in length strsplit \<ge> 4 \<and> DB_Get_bool db ''block'' (user @ ''@'' @ strsplit ! 3) = Inr True)"

text \<open>A post with two photos, a feed with it, and the fetcher after a block command.\<close>

definition two_photos :: Post where
  "two_photos = \<lparr>Type = ''photo'', ID = 31337, Timestamp = 600,
     ShortURL = ''https://tmblr.co/two'', Trail = [], VideoURL = [],
     Photos = [''https://64.media.tumblr.com/abcfrag/s640x960/x.jpg'',
               ''https://64.media.tumblr.com/otherfrag/s640x960/y.GIF'']\<rparr>"

definition rem_two :: remote where
  "rem_two url = Decoded \<lparr>Status = 200, Posts = [two_photos]\<rparr>"

definition g_blocked :: TumblrFetcher where
  "g_blocked = snd (Block f0 ''blog'' ''https://64.media.tumblr.com/abcfrag/s1280x1920/x.jpg'')"

section \<open>Library functions: what the models compute\<close>

lemma Split_not_Nil: "Split s sep \<noteq> []"
  by (induction s) (auto split: list.splits)

lemma Join_Cons_Cons: "Join ((a # w) # ws) sep = a # Join (w # ws) sep"
  by (cases ws) simp_all

lemma Split_Join: "Join (Split s sep) sep = s"
  by (induction s) (auto split: list.splits simp: Split_not_Nil Join_Cons_Cons)

lemma Split_no_sep: "w \<in> set (Split s sep) \<Longrightarrow> sep \<notin> set w"
  by (induction s arbitrary: w) (auto split: list.splits if_splits)

lemma FormatInt_12345: "FormatInt 12345 = ''12345''"
  by (simp add: FormatInt_def FormatUint.simps digit_def)

lemma FormatInt_999: "FormatInt 999 = ''999''"
  by (simp add: FormatInt_def FormatUint.simps digit_def)

section \<open>The canonical id of a post\<close>

text \<open>
  The trail is consulted only when it has more than one entry. A reblog whose trail is
  the single entry of the original keeps its own id, and is delivered again after the
  original. An id that is the empty string is passed over.
\<close>

theorem msgid_short_trail_counterexample:
  "msgid_of reblog_short = ''999'' \<and>
   msgid_of original_post = ''12345'' \<and>
   map Caption (fst (posts_loop id (DB f0) ''blog'' 0 [original_post, reblog_short] Map.empty []))
     = [''https://tmblr.co/orig'', ''https://tmblr.co/re1''] \<and>
   msgid_of reblog_empty = ''999''"
proof (intro conjI)
  show "msgid_of reblog_short = ''999''"
    by (simp add: msgid_of_def reblog_short_def FormatInt_999)
  show "msgid_of original_post = ''12345''"
    by (simp add: msgid_of_def original_post_def FormatInt_12345)
  show "map Caption (fst (posts_loop id (DB f0) ''blog'' 0 [original_post, reblog_short] Map.empty []))
     = [''https://tmblr.co/orig'', ''https://tmblr.co/re1'']"
    by (simp add: cache_key_def msgid_of_def original_post_def reblog_short_def FormatInt_999
        FormatInt_12345 post_resources_def Let_def f0_def DB_Get_bool_def)
  show "msgid_of reblog_empty = ''999''"
    by (simp add: msgid_of_def reblog_empty_def FormatInt_999)
qed

text \<open>
  C1, as the code has it by design. For a post whose trail has more than one entry the id
  used for deduplication is the id of the first trail entry when that id is a string
  that is not empty; it is the post's own id, in decimal, when the first entry carries no
  id or the empty string, and for every post whose trail has at most one entry. A post
  with such a trail whose first entry carries the string \<open>12345\<close> is skipped, whatever its
  own id, once the cache holds the key of a post \<open>q\<close> of the same source whose id is
  \<open>12345\<close>. Nothing is stated here for a first entry whose id is a number.
\<close>

theorem msgid_of_trail:
  "(1 < length (Trail p) \<and> hd (Trail p) = IString s \<and> s \<noteq> [] \<longrightarrow> msgid_of p = s) \<and>
   (length (Trail p) \<le> 1 \<or> hd (Trail p) = INil \<or> hd (Trail p) = IString []
      \<longrightarrow> msgid_of p = FormatInt (ID p)) \<and>
   (1 < length (Trail p) \<and> hd (Trail p) = IString ''12345'' \<and> msgid_of q = ''12345'' \<and>
    c (cache_key user q) \<noteq> None \<and> (Type p = ''photo'' \<or> Type p = ''video'') \<and>
    \<not> sint (Timestamp p) < sint time
      \<longrightarrow> posts_loop ulower db user time (p # ps) c ret = posts_loop ulower db user time ps c ret)"
  by (auto simp: msgid_of_def cache_key_def Let_def)

theorem msgid_of_trail_witness:
  "1 < length (Trail reblog_long) \<and> hd (Trail reblog_long) = IString ''12345'' \<and>
   msgid_of reblog_long = ''12345'' \<and>
   length (Trail original_post) \<le> 1 \<and>
   msgid_of original_post = ''12345'' \<and>
   posts_loop id (DB f0) ''blog'' 0 [reblog_long]
       [cache_key ''blog'' original_post \<mapsto> True] []
     = ([], [cache_key ''blog'' original_post \<mapsto> True])"
proof -
  have t: "1 < length (Trail reblog_long)" "hd (Trail reblog_long) = IString ''12345''"
    by (simp_all add: reblog_long_def)
  have o: "length (Trail original_post) \<le> 1" "FormatInt (ID original_post) = ''12345''"
    by (simp_all add: original_post_def FormatInt_12345)
  have e: "Type reblog_long = ''photo''" "\<not> sint (Timestamp reblog_long) < sint (0::int64)"
    by (simp_all add: reblog_long_def)
  note w = msgid_of_trail [of reblog_long "''12345''" original_post
      "[cache_key ''blog'' original_post \<mapsto> True]" "''blog''" 0 id "DB f0" "[]" "[]"]
  from msgid_of_trail [of original_post] o have q: "msgid_of original_post = ''12345''"
    by simp
  from w t have "msgid_of reblog_long = ''12345''"
    by simp
  moreover from w t q e
  have "posts_loop id (DB f0) ''blog'' 0 [reblog_long] [cache_key ''blog'' original_post \<mapsto> True] []
     = ([], [cache_key ''blog'' original_post \<mapsto> True])"
    by simp
  ultimately show ?thesis
    using t o q by simp
qed

section \<open>Rewinding the cursor\<close>

lemma sint_sub_in_range:
  "0 \<le> sint back \<Longrightarrow> sint back \<le> sint now \<Longrightarrow>
   sint (now - back :: int64) = sint now - sint back"
proof -
  assume a: "0 \<le> sint back" "sint back \<le> sint now"
  have u: "sint now < 2 ^ 63" "- (2 ^ 63) \<le> sint now"
    using sint_lt [of now] sint_ge [of now] by simp_all
  have "sint (now - back) = signed_take_bit 63 (sint now - sint back)"
    by (simp add: sint_word_ariths)
  also have "\<dots> = sint now - sint back"
    using a u by (intro signed_take_bit_int_eq_self) simp_all
  finally show ?thesis .
qed

text \<open>
  C8. \<open>GoBack\<close> with \<open>back\<close> greater than the current time returns the error
  \<open>Back too long!\<close> and leaves the fetcher, and so the stored cursor, as it was.
  Otherwise it issues the write of \<open>now - back\<close> under \<open>last_update\<close> and the subscriber,
  and returns what the write returns: on a store that accepts the write the error is nil
  and the cursor read back is \<open>now - back\<close>. The difference is the \<open>int64\<close> one of the
  code; for \<open>back\<close> from zero up to \<open>now\<close> it is the difference of the integers.
\<close>

theorem GoBack_rewind:
  "(sint now < sint back \<longrightarrow> GoBack f now userid back = (Some ''Back too long!'', f)) \<and>
   (\<not> sint now < sint back \<longrightarrow>
      (let (err, f') = GoBack f now userid back
       in set_log (DB f') = set_log (DB f) @ [(''last_update'', userid, VInt64 (now - back))] \<and>
          err = fst (DB_Set (DB f) ''last_update'' userid (VInt64 (now - back))) \<and>
          (\<not> write_fault (DB f) \<longrightarrow>
             err = None \<and> DB_Get_int64 (DB f') ''last_update'' userid = Inr (now - back)) \<and>
          (0 \<le> sint back \<longrightarrow> sint (now - back) = sint now - sint back)))"
  using sint_sub_in_range [of "back" now]
  by (simp add: GoBack_def DB_Set_def DB_Get_int64_def Let_def)

theorem GoBack_rewind_witness:
  "sint (1700000000::int64) < sint (99999999999::int64) \<and>
   GoBack f0 1700000000 ''user'' 99999999999 = (Some ''Back too long!'', f0) \<and>
   \<not> sint (1700000000::int64) < sint (3600::int64) \<and> \<not> write_fault (DB f0) \<and>
   fst (GoBack f0 1700000000 ''user'' 3600) = None \<and>
   DB_Get_int64 (DB (snd (GoBack f0 1700000000 ''user'' 3600))) ''last_update'' ''user''
     = Inr 1699996400"
  using GoBack_rewind [of 1700000000 99999999999 f0 "''user''"]
    GoBack_rewind [of 1700000000 3600 f0 "''user''"]
  by (simp add: f0_def split: prod.splits)

section \<open>The block command\<close>

text \<open>
  C9. When the caption splits on \<open>/\<close> into fewer than four segments, \<open>Block\<close> answers
  \<open>Unrecognized image caption.\<close> and the fetcher is as before: nothing is written. With
  four segments or more it issues the write of \<open>true\<close> in the bucket \<open>block\<close> under the
  key made of the subscriber and the fourth segment, which a store that accepts writes
  then holds, and answers with that key followed by \<open>blocked.\<close>
\<close>

theorem Block_fourth_segment:
  "(length (Split caption CHR ''/'') < 4 \<longrightarrow>
      Block f userid caption = (''Unrecognized image caption.'', f)) \<and>
   (4 \<le> length (Split caption CHR ''/'') \<longrightarrow>
      (let imghash = userid @ ''@'' @ Split caption CHR ''/'' ! 3;
           (reply, f') = Block f userid caption
       in reply = imghash @ '' blocked.'' \<and>
          set_log (DB f') = set_log (DB f) @ [(''block'', imghash, VBool True)] \<and>
          (\<not> write_fault (DB f) \<longrightarrow>
             kv (DB f') = (kv (DB f))((''block'', imghash) \<mapsto> VBool True))))"
  by (simp add: Block_def DB_Set_def Let_def)

theorem Block_fourth_segment_witness:
  "length (Split ''no slash here'' CHR ''/'') < 4 \<and>
   Block f0 ''chan'' ''no slash here'' = (''Unrecognized image caption.'', f0) \<and>
   4 \<le> length (Split ''https://64.media.tumblr.com/abcfrag/s1280x1920/x.jpg'' CHR ''/'') \<and>
   \<not> write_fault (DB f0) \<and>
   fst (Block f0 ''chan'' ''https://64.media.tumblr.com/abcfrag/s1280x1920/x.jpg'')
     = ''chan@abcfrag blocked.'' \<and>
   kv (DB (snd (Block f0 ''chan'' ''https://64.media.tumblr.com/abcfrag/s1280x1920/x.jpg'')))
      (''block'', ''chan@abcfrag'') = Some (VBool True)"
  using Block_fourth_segment [of "''no slash here''" f0 "''chan''"]
    Block_fourth_segment
      [of "''https://64.media.tumblr.com/abcfrag/s1280x1920/x.jpg''" f0 "''chan''"]
  by (simp add: f0_def Let_def split: prod.splits)

text \<open>
  C10. With four segments or more the answer of \<open>Block\<close> is the confirmation, whatever
  the store does: the error of the write is dropped. On a store that rejects the write
  the write returns an error, the registry is what it was, and the answer is the same
  confirmation; so the confirmation does not tell that the entry is stored.
\<close>

theorem Block_reply_unconditional:
  "4 \<le> length (Split caption CHR ''/'') \<longrightarrow>
     (let imghash = userid @ ''@'' @ Split caption CHR ''/'' ! 3;
          (reply, f') = Block f userid caption
      in reply = imghash @ '' blocked.'' \<and>
         (write_fault (DB f) \<longrightarrow>
            fst (DB_Set (DB f) ''block'' imghash (VBool True)) \<noteq> None \<and>
            kv (DB f') = kv (DB f)))"
  by (simp add: Block_def DB_Set_def Let_def)

theorem Block_reply_unconditional_witness:
  "4 \<le> length (Split ''https://64.media.tumblr.com/abcfrag/s1280x1920/x.jpg'' CHR ''/'') \<and>
   write_fault (DB f_fault) \<and>
   fst (Block f_fault ''chan'' ''https://64.media.tumblr.com/abcfrag/s1280x1920/x.jpg'')
     = ''chan@abcfrag blocked.'' \<and>
   kv (DB (snd (Block f_fault ''chan'' ''https://64.media.tumblr.com/abcfrag/s1280x1920/x.jpg'')))
      (''block'', ''chan@abcfrag'') = None"
  using Block_reply_unconditional
      [of "''https://64.media.tumblr.com/abcfrag/s1280x1920/x.jpg''" "''chan''" f_fault]
  by (simp add: f_fault_def Let_def split: prod.splits)

section \<open>Sending one resource\<close>

text \<open>
  The caption is cut when it has 190 bytes or more, at byte 191. For every length but 190
  the cut succeeds and the caption sent is the first 191 bytes at most.
\<close>

lemma Send_single_caption:
  "Err m = None \<Longrightarrow> length (Resources m) = 1 \<Longrightarrow> length (Caption m) \<noteq> 190 \<Longrightarrow>
   \<exists>err media c. Send tb to m = Inr (err, [BotSend to (Media media)]) \<and>
     (media = Some (Photo (URL (hd (Resources m))) c) \<or>
      media = Some (Video (URL (hd (Resources m))) c) \<or> media = None) \<and>
     c = take 191 (Caption m) \<and> prefix c (Caption m) \<and> length c \<le> 191"
  by (auto simp: Send_def slice_to_def Let_def take_is_prefix)

text \<open>
  C2. A caption of exactly 190 bytes passes the test \<open>len >= 190\<close> and is sliced at 191,
  beyond its end: \<open>Send\<close> panics, for any transport, recipient and image.
\<close>

theorem Send_caption_190_panics:
  "Send tb to (ReplyMessage [Resource u TIMAGE u] (replicate 190 CHR ''a'') None)
     = Inl SliceBoundsOutOfRange"
  by (simp add: Send_def slice_to_def)

text \<open>
  C3. For a single resource that is neither an image nor a video, \<open>Send\<close> calls the
  transport with the nil media and returns what that call returns; the error
  \<open>Undefined message type.\<close> is overwritten and never returned.
\<close>

theorem Send_unknown_kind_sends:
  "Send tb to (ReplyMessage [Resource u (TOTHER n) u] [] None)
     = Inr (tb (BotSend to (Media None)), [BotSend to (Media None)])"
  by (simp add: Send_def slice_to_def Let_def)

section \<open>Fetching twice\<close>

lemma posts_loop_Cons_cases:
  obtains
    (skip) "posts_loop ulower db user time (q # ps) c ret = posts_loop ulower db user time ps c ret"
      "enumerated time (q # ps) = enumerated time ps"
  | (break) "posts_loop ulower db user time (q # ps) c ret = (ret, c)"
      "enumerated time (q # ps) = []"
  | (seen) "posts_loop ulower db user time (q # ps) c ret = posts_loop ulower db user time ps c ret"
      "enumerated time (q # ps) = q # enumerated time ps"
      "c (cache_key user q) \<noteq> None"
  | (fresh) "posts_loop ulower db user time (q # ps) c ret =
        posts_loop ulower db user time ps (c(cache_key user q \<mapsto> True))
          (ret @ (if post_resources ulower db user q \<noteq> []
                  then [ReplyMessage (post_resources ulower db user q) (ShortURL q) None] else []))"
      "enumerated time (q # ps) = q # enumerated time ps"
      "c (cache_key user q) = None"
proof (cases "Type q \<noteq> ''photo'' \<and> Type q \<noteq> ''video''")
  case True
  then show ?thesis by (intro skip) simp_all
next
  case elig: False
  show ?thesis
  proof (cases "sint (Timestamp q) < sint time")
    case True
    with elig show ?thesis by (intro break) auto
  next
    case window: False
    show ?thesis
    proof (cases "c (cache_key user q) = None")
      case True
      with elig window show ?thesis by (intro fresh) (auto simp: Let_def)
    next
      case False
      with elig window show ?thesis by (intro seen) auto
    qed
  qed
qed

lemma posts_loop_cache_Some:
  "c k = Some v \<Longrightarrow> snd (posts_loop ulower db user time ps c ret) k = Some v"
proof (induction ps arbitrary: c ret)
  case Nil
  then show ?case by simp
next
  case (Cons q ps)
  show ?case
  proof (cases rule: posts_loop_Cons_cases [of ulower db user time q ps c ret])
    case skip
    with Cons show ?thesis by simp
  next
    case break
    with Cons show ?thesis by simp
  next
    case seen
    with Cons show ?thesis by simp
  next
    case fresh
    with Cons.prems have "(c(cache_key user q \<mapsto> True)) k = Some v"
      by auto
    then show ?thesis
      unfolding fresh(1) by (rule Cons.IH)
  qed
qed

lemma posts_loop_enumerated:
  "p \<in> set (enumerated time ps) \<Longrightarrow>
   snd (posts_loop ulower db user time ps c ret) (cache_key user p) \<noteq> None"
proof (induction ps arbitrary: c ret)
  case Nil
  then show ?case by simp
next
  case (Cons q ps)
  show ?case
  proof (cases rule: posts_loop_Cons_cases [of ulower db user time q ps c ret])
    case skip
    with Cons show ?thesis by simp
  next
    case break
    with Cons show ?thesis by simp
  next
    case seen
    from Cons.prems seen(2) have "p = q \<or> p \<in> set (enumerated time ps)"
      by auto
    then show ?thesis
    proof
      assume "p = q"
      with seen(3) obtain v where "c (cache_key user p) = Some v"
        by auto
      then show ?thesis
        unfolding seen(1) by (simp add: posts_loop_cache_Some)
    next
      assume "p \<in> set (enumerated time ps)"
      then show ?thesis
        unfolding seen(1) by (rule Cons.IH)
    qed
  next
    case fresh
    from Cons.prems fresh(2) have "p = q \<or> p \<in> set (enumerated time ps)"
      by auto
    then show ?thesis
    proof
      assume "p = q"
      then have "(c(cache_key user q \<mapsto> True)) (cache_key user p) = Some True"
        by simp
      then show ?thesis
        unfolding fresh(1) by (simp add: posts_loop_cache_Some)
    next
      assume "p \<in> set (enumerated time ps)"
      then show ?thesis
        unfolding fresh(1) by (rule Cons.IH)
    qed
  qed
qed

lemma posts_loop_all_seen:
  "\<forall>p\<in>set (enumerated time ps). c (cache_key user p) \<noteq> None \<Longrightarrow>
   posts_loop ulower db user time ps c ret = (ret, c)"
  by (induction ps arbitrary: ret) (auto simp: Let_def)

lemma posts_loop_twice:
  "posts_loop ulower db user time ps c ret = (ret1, c1) \<Longrightarrow>
   posts_loop ulower db' user time ps c1 ret' = (ret', c1)"
  by (rule posts_loop_all_seen) (metis posts_loop_enumerated snd_conv)

text \<open>
  C4. Two fetches of the same source with the same cursor and the same remote answer:
  the second returns no message and leaves the fetcher, its cache included, as the first
  left it. After a first fetch that read the feed, the cache holds the key of every
  enumerated post, whether or not the post had a resource to deliver; and a post whose
  key the cache holds is passed over with the cache and the result as they were.
\<close>

theorem getUserTimeline_twice:
  "(let (r1, f1) = getUserTimeline ulower f rem user time;
        (r2, f2) = getUserTimeline ulower f1 rem user time
    in fst r2 = [] \<and> f2 = f1 \<and>
       (OAuthConsumerKey f \<noteq> [] \<and> rem (api_url user (OAuthConsumerKey f)) = Decoded posts \<and>
        Status posts = 200 \<longrightarrow>
          (\<forall>p\<in>set (enumerated time (Posts posts)). cache f1 (cache_key user p) \<noteq> None))) \<and>
   ((Type p = ''photo'' \<or> Type p = ''video'') \<and> \<not> sint (Timestamp p) < sint time \<and>
    c (cache_key user p) \<noteq> None \<longrightarrow>
      posts_loop ulower db user time (p # ps) c ret = posts_loop ulower db user time ps c ret)"
proof (intro conjI)
  show "(Type p = ''photo'' \<or> Type p = ''video'') \<and> \<not> sint (Timestamp p) < sint time \<and>
    c (cache_key user p) \<noteq> None \<longrightarrow>
      posts_loop ulower db user time (p # ps) c ret = posts_loop ulower db user time ps c ret"
    by auto
  show "let (r1, f1) = getUserTimeline ulower f rem user time;
        (r2, f2) = getUserTimeline ulower f1 rem user time
    in fst r2 = [] \<and> f2 = f1 \<and>
       (OAuthConsumerKey f \<noteq> [] \<and> rem (api_url user (OAuthConsumerKey f)) = Decoded posts \<and>
        Status posts = 200 \<longrightarrow>
          (\<forall>p\<in>set (enumerated time (Posts posts)). cache f1 (cache_key user p) \<noteq> None))"
  proof (cases "OAuthConsumerKey f = []")
    case True
    then show ?thesis by (simp add: getUserTimeline_def)
  next
    case key: False
    show ?thesis
    proof (cases "rem (api_url user (OAuthConsumerKey f))")
      case (HTTPError e)
      with key show ?thesis by (simp add: getUserTimeline_def)
    next
      case (DecodeError e)
      with key show ?thesis by (simp add: getUserTimeline_def)
    next
      case (Decoded tp)
      show ?thesis
      proof (cases "Status tp = 200")
        case False
        with key Decoded show ?thesis by (auto simp: getUserTimeline_def)
      next
        case True
        obtain ret1 c1 where l1: "posts_loop ulower (DB f) user time (Posts tp) (cache f) [] = (ret1, c1)"
          by (cases "posts_loop ulower (DB f) user time (Posts tp) (cache f) []") auto
        have g1: "getUserTimeline ulower f rem user time = ((ret1, None), f\<lparr>cache := c1\<rparr>)"
          using key Decoded True l1 by (simp add: getUserTimeline_def)
        have l2: "posts_loop ulower (DB f) user time (Posts tp) c1 [] = ([], c1)"
          using l1 by (rule posts_loop_twice)
        have g2: "getUserTimeline ulower (f\<lparr>cache := c1\<rparr>) rem user time = (([], None), f\<lparr>cache := c1\<rparr>)"
          using key Decoded True l2 by (simp add: getUserTimeline_def)
        have en: "\<forall>p\<in>set (enumerated time (Posts tp)). c1 (cache_key user p) \<noteq> None"
          using posts_loop_enumerated [of _ time "Posts tp" ulower "DB f" user "cache f" "[]"] l1
          by simp
        show ?thesis
          using g1 g2 en Decoded by auto
      qed
    qed
  qed
qed

theorem getUserTimeline_twice_witness:
  "fst (fst (getUserTimeline id f0 rem1 ''blog'' 0)) =
     [ReplyMessage [Resource ''https://64.media.tumblr.com/aaa/a.jpg'' TIMAGE
                      ''https://64.media.tumblr.com/aaa/a.jpg''] ''https://tmblr.co/orig'' None] \<and>
   empty_post \<in> set (enumerated 0 [original_post, empty_post]) \<and>
   post_resources id (DB f0) ''blog'' empty_post = [] \<and>
   cache (snd (getUserTimeline id f0 rem1 ''blog'' 0)) (cache_key ''blog'' empty_post) \<noteq> None \<and>
   fst (fst (getUserTimeline id (snd (getUserTimeline id f0 rem1 ''blog'' 0)) rem1 ''blog'' 0)) = [] \<and>
   snd (getUserTimeline id (snd (getUserTimeline id f0 rem1 ''blog'' 0)) rem1 ''blog'' 0)
     = snd (getUserTimeline id f0 rem1 ''blog'' 0)"
proof -
  have k: "OAuthConsumerKey f0 \<noteq> []" "rem1 (api_url ''blog'' (OAuthConsumerKey f0)) =
      Decoded \<lparr>Status = 200, Posts = [original_post, empty_post]\<rparr>"
    by (simp_all add: f0_def rem1_def)
  have e: "empty_post \<in> set (enumerated 0 [original_post, empty_post])"
    by (simp add: original_post_def empty_post_def)
  have r: "post_resources id (DB f0) ''blog'' empty_post = []"
    by (simp add: post_resources_def empty_post_def)
  have first: "fst (fst (getUserTimeline id f0 rem1 ''blog'' 0)) =
     [ReplyMessage [Resource ''https://64.media.tumblr.com/aaa/a.jpg'' TIMAGE
                      ''https://64.media.tumblr.com/aaa/a.jpg''] ''https://tmblr.co/orig'' None]"
    by (simp add: getUserTimeline_def f0_def rem1_def original_post_def empty_post_def
        cache_key_def msgid_of_def post_resources_def DB_Get_bool_def Let_def HasSuffix_def
        ToLower_def lower_byte_def)
  note w = getUserTimeline_twice [of id f0 rem1 "''blog''" 0
      "\<lparr>Status = 200, Posts = [original_post, empty_post]\<rparr>" original_post
      "\<lambda>k. Some True" "DB f0" "[]" "[]"]
  from w k e r first show ?thesis
    by (auto simp: Let_def split: prod.splits)
qed

section \<open>Albums\<close>

lemma spec_batches_Nil: "spec_batches n [] = []"
  by (simp add: spec_batches.simps)

lemma spec_batches_step:
  "0 < n \<Longrightarrow> xs \<noteq> [] \<Longrightarrow> spec_batches n xs = take n xs # spec_batches n (drop n xs)"
  by (subst spec_batches.simps) simp

lemma spec_batches_concat: "0 < n \<Longrightarrow> concat (spec_batches n xs) = xs"
proof (induction n xs rule: spec_batches.induct)
  case (1 n xs)
  then show ?case
    by (cases "xs = []") (simp_all add: spec_batches_Nil spec_batches_step)
qed

lemma spec_batches_bounds: "b \<in> set (spec_batches n xs) \<Longrightarrow> 0 < length b \<and> length b \<le> n"
proof (induction n xs rule: spec_batches.induct)
  case (1 n xs)
  show ?case
  proof (cases "n = 0 \<or> xs = []")
    case True
    with "1.prems" show ?thesis
      by (simp add: spec_batches.simps [of n xs])
  next
    case False
    with "1.prems" have "b = take n xs \<or> b \<in> set (spec_batches n (drop n xs))"
      by (simp add: spec_batches_step)
    with False "1.IH" show ?thesis
      by auto
  qed
qed

lemma spec_batches_sizes:
  "0 < n \<Longrightarrow> map length (spec_batches n xs) =
     replicate (length xs div n) n @ (if length xs mod n = 0 then [] else [length xs mod n])"
proof (induction n xs rule: spec_batches.induct)
  case (1 n xs)
  show ?case
  proof (cases "xs = []")
    case True
    then show ?thesis by (simp add: spec_batches_Nil)
  next
    case False
    note ne = this
    show ?thesis
    proof (cases "length xs < n")
      case True
      with ne 1 show ?thesis
        by (simp add: spec_batches_step spec_batches_Nil)
    next
      case False
      then have ge: "n \<le> length xs" by simp
      with \<open>0 < n\<close> have d: "length xs div n = Suc ((length xs - n) div n)"
        by (simp add: le_div_geq)
      from ge have m: "length xs mod n = (length xs - n) mod n"
        by (simp add: le_mod_geq)
      from ne 1 ge show ?thesis
        by (simp add: spec_batches_step d m min_def)
    qed
  qed
qed

lemma album_of_recognized:
  "\<forall>r\<in>set rs. T r = TIMAGE \<or> T r = TVIDEO \<Longrightarrow>
   album_of caption rs mediaFiles = mediaFiles @ map (media_of caption) rs"
  by (induction rs arbitrary: mediaFiles) (auto simp: media_of_def)

lemma album_loop_batches:
  "\<forall>r\<in>set (Resources message). T r = TIMAGE \<or> T r = TVIDEO \<Longrightarrow>
   snd (album_loop tb to message i ret calls) =
     calls @ map (\<lambda>b. BotSendAlbum to (map (media_of (Caption message)) b))
               (spec_batches MaxAlbumSize (drop i (Resources message)))"
proof (induction tb to message i ret calls rule: album_loop.induct)
  case (1 tb to message i ret calls)
  show ?case
  proof (cases "i < length (Resources message)")
    case False
    then show ?thesis
      by (simp add: album_loop.simps [of tb to message i] spec_batches_Nil)
  next
    case True
    define rs where "rs = Resources message"
    define e where "e = (if i + MaxAlbumSize > length rs then length rs else i + MaxAlbumSize)"
    define call where
      "call = BotSendAlbum to (album_of (Caption message) (take (e - i) (drop i rs)) [])"
    define ret' where "ret' = (case tb call of Some err \<Rightarrow> Some err | None \<Rightarrow> ret)"
    have tk: "take (e - i) (drop i rs) = take MaxAlbumSize (drop i rs)"
      using True by (auto simp: e_def rs_def)
    have "\<forall>r\<in>set (take MaxAlbumSize (drop i rs)). T r = TIMAGE \<or> T r = TVIDEO"
      using "1.prems" unfolding rs_def by (meson in_set_dropD in_set_takeD)
    then have alb: "call = BotSendAlbum to
        (map (media_of (Caption message)) (take MaxAlbumSize (drop i rs)))"
      by (simp add: call_def tk album_of_recognized)
    have sb: "spec_batches MaxAlbumSize (drop i rs) =
        take MaxAlbumSize (drop i rs) # spec_batches MaxAlbumSize (drop (i + MaxAlbumSize) rs)"
      using True by (simp add: spec_batches_step MaxAlbumSize_def add.commute rs_def)
    have step: "album_loop tb to message i ret calls =
        album_loop tb to message (i + MaxAlbumSize) ret' (calls @ [call])"
      using True
      by (subst album_loop.simps) (simp add: Let_def ret'_def call_def e_def rs_def)
    have "snd (album_loop tb to message (i + MaxAlbumSize) ret' (calls @ [call])) =
        (calls @ [call]) @ map (\<lambda>b. BotSendAlbum to (map (media_of (Caption message)) b))
               (spec_batches MaxAlbumSize (drop (i + MaxAlbumSize) rs))"
      unfolding ret'_def call_def e_def rs_def
      by (rule "1.IH" [OF True refl refl refl "1.prems"])
    with step sb alb show ?thesis
      by (simp add: rs_def)
  qed
qed

text \<open>
  C7. For a message with no error and more than one resource, all of them images or
  videos, \<open>Send\<close> makes exactly one \<open>SendAlbum\<close> call for each batch of the resources,
  in order; the batches are consecutive, concatenate to the resource list, are never
  empty and never longer than 10, and all but the last hold 10. For 23 resources the
  sizes are 10, 10 and 3.
\<close>

theorem Send_batches:
  "Err message = None \<and> 1 < length (Resources message) \<and>
   (\<forall>r\<in>set (Resources message). T r = TIMAGE \<or> T r = TVIDEO) \<longrightarrow>
     (\<exists>ret. Send tb to message =
        Inr (ret, map (\<lambda>b. BotSendAlbum to (map (media_of (Caption message)) b))
                    (spec_batches 10 (Resources message)))) \<and>
     concat (spec_batches 10 (Resources message)) = Resources message \<and>
     (\<forall>b\<in>set (spec_batches 10 (Resources message)). 0 < length b \<and> length b \<le> 10) \<and>
     map length (spec_batches 10 (Resources message)) =
       replicate (length (Resources message) div 10) 10 @
       (if length (Resources message) mod 10 = 0 then []
        else [length (Resources message) mod 10])"
proof (intro impI conjI)
  assume a: "Err message = None \<and> 1 < length (Resources message) \<and>
   (\<forall>r\<in>set (Resources message). T r = TIMAGE \<or> T r = TVIDEO)"
  then have s: "Send tb to message = Inr (album_loop tb to message 0 None [])"
    by (auto simp: Send_def)
  from a have "snd (album_loop tb to message 0 None []) =
     map (\<lambda>b. BotSendAlbum to (map (media_of (Caption message)) b))
               (spec_batches 10 (Resources message))"
    using album_loop_batches [of message tb to 0 None "[]"] by (simp add: MaxAlbumSize_def)
  with s show "\<exists>ret. Send tb to message =
        Inr (ret, map (\<lambda>b. BotSendAlbum to (map (media_of (Caption message)) b))
                    (spec_batches 10 (Resources message)))"
    by (metis prod.collapse)
  show "concat (spec_batches 10 (Resources message)) = Resources message"
    by (simp add: spec_batches_concat)
  show "\<forall>b\<in>set (spec_batches 10 (Resources message)). 0 < length b \<and> length b \<le> 10"
    using spec_batches_bounds by blast
  show "map length (spec_batches 10 (Resources message)) =
       replicate (length (Resources message) div 10) 10 @
       (if length (Resources message) mod 10 = 0 then []
        else [length (Resources message) mod 10])"
    by (rule spec_batches_sizes) simp
qed

theorem Send_batches_witness:
  "Err m23 = None \<and> length (Resources m23) = 23 \<and>
   map length (spec_batches 10 (Resources m23)) = [10, 10, 3] \<and>
   (\<exists>ret. Send (\<lambda>call. None) ''chat'' m23 =
        Inr (ret, map (\<lambda>b. BotSendAlbum ''chat'' (map (media_of (Caption m23)) b))
                    (spec_batches 10 (Resources m23))))"
proof -
  have h: "Err m23 = None \<and> 1 < length (Resources m23) \<and>
   (\<forall>r\<in>set (Resources m23). T r = TIMAGE \<or> T r = TVIDEO)"
    by (simp add: m23_def)
  have l: "length (Resources m23) = 23"
    by (simp add: m23_def)
  have r: "replicate (23 div 10) (10::nat) @ (if (23::nat) mod 10 = 0 then [] else [23 mod 10])
     = [10, 10, 3]"
    by (simp add: numeral_2_eq_2)
  from Send_batches [of m23 "\<lambda>call. None" "''chat''"] h l r show ?thesis
    by simp
qed

section \<open>The store across a push\<close>

lemma getUserTimeline_DB:
  "DB (snd (getUserTimeline ulower f rem user time)) = DB f \<and>
   OAuthConsumerKey (snd (getUserTimeline ulower f rem user time)) = OAuthConsumerKey f"
  by (auto simp: getUserTimeline_def Let_def split: response.splits prod.splits)

lemma getUserTimeline_error:
  "snd (fst (getUserTimeline ulower f rem user time)) \<noteq> None \<Longrightarrow>
   getUserTimeline ulower f rem user time = (([], snd (fst (getUserTimeline ulower f rem user time))), f)"
  by (auto simp: getUserTimeline_def Let_def split: response.splits prod.splits if_splits)

lemma follow_loop_DB:
  "DB (snd (follow_loop ulower f rem t followings ret)) = DB f"
proof (induction followings arbitrary: f ret)
  case Nil
  then show ?case by simp
next
  case (Cons u us)
  obtain single err f' where g: "getUserTimeline ulower f rem u t = ((single, err), f')"
    by (metis prod.collapse)
  then have "DB f' = DB f"
    using getUserTimeline_DB [of ulower f rem u t] by simp
  with g Cons.IH [of f'] show ?case
    by simp
qed

lemma follow_loop_all_fail:
  "\<forall>u\<in>set followings. snd (fst (getUserTimeline ulower f rem u t)) \<noteq> None \<Longrightarrow>
   follow_loop ulower f rem t followings ret = (ret, f)"
proof (induction followings arbitrary: ret)
  case Nil
  then show ?case by simp
next
  case (Cons u us)
  then have e: "snd (fst (getUserTimeline ulower f rem u t)) \<noteq> None"
    by simp
  from getUserTimeline_error [OF e] e Cons show ?case
    by (auto split: prod.splits)
qed

lemma DB_Set_log: "set_log (snd (DB_Set db b k v)) = set_log db @ [(b, k, v)]"
  by (simp add: DB_Set_def Let_def)

lemma DB_Set_kv:
  "kv (snd (DB_Set db b k v)) = (if write_fault db then kv db else (kv db)((b, k) \<mapsto> v))"
  by (simp add: DB_Set_def Let_def)

lemma cursor_of_Set:
  "cursor_of (snd (DB_Set db ''last_update'' userid (VInt64 now))) userid =
     (if write_fault db then cursor_of db userid else now)"
  by (simp add: cursor_of_def DB_Get_int64_def DB_Set_kv)

section \<open>The cursor after a push\<close>

text \<open>
  The cursor written is the time the call reads. When the clock is behind the stored
  cursor and a post of the feed is stamped at or after that cursor, the push returns the
  post and the cursor goes back.
\<close>

theorem GetPush_clock_counterexample:
  "cursor_of (DB f_cursor) ''chan'' = 1700000000 \<and>
   map Caption (fst (GetPush id f_cursor rem_late 1699999990 ''chan'' [''blog'']))
     = [''https://tmblr.co/late''] \<and>
   cursor_of (DB (snd (GetPush id f_cursor rem_late 1699999990 ''chan'' [''blog''])))  ''chan''
     = 1699999990 \<and>
   sint (1699999990 :: int64) < sint (1700000000 :: int64)"
  by (simp add: GetPush_def getUserTimeline_def f_cursor_def rem_late_def late_post_def
      cursor_of_def DB_Get_int64_def DB_Set_def cache_key_def msgid_of_def
      post_resources_def DB_Get_bool_def Let_def)

text \<open>
  C5, as the code has it. \<open>GetPush\<close> issues the write of the current time under
  \<open>last_update\<close> and the subscriber exactly when the messages returned are not empty (a
  store that accepts the write then reads back that time); when they are empty the store
  is as before, and they are empty with the whole fetcher as before when every source
  fails. The cursor as read after the push is not below the cursor as read before it,
  provided that cursor was not later than the current time.
\<close>

theorem GetPush_cursor:
  "(let (ret, f') = GetPush ulower f rem now userid followings
    in (ret \<noteq> [] \<longrightarrow>
          set_log (DB f') = set_log (DB f) @ [(''last_update'', userid, VInt64 now)] \<and>
          (\<not> write_fault (DB f) \<longrightarrow> DB_Get_int64 (DB f') ''last_update'' userid = Inr now)) \<and>
       (ret = [] \<longrightarrow> DB f' = DB f) \<and>
       ((\<forall>u\<in>set followings.
            snd (fst (getUserTimeline ulower f rem u (cursor_of (DB f) userid))) \<noteq> None)
          \<longrightarrow> ret = [] \<and> f' = f) \<and>
       (sint (cursor_of (DB f) userid) \<le> sint now \<longrightarrow>
          sint (cursor_of (DB f) userid) \<le> sint (cursor_of (DB f') userid)))"
proof -
  define t where "t = cursor_of (DB f) userid"
  obtain ret f1 where l: "follow_loop ulower f rem t followings [] = (ret, f1)"
    by (metis prod.collapse)
  have db: "DB f1 = DB f"
    using follow_loop_DB [of ulower f rem t followings "[]"] l by simp
  have fail: "(\<forall>u\<in>set followings. snd (fst (getUserTimeline ulower f rem u t)) \<noteq> None)
      \<Longrightarrow> ret = [] \<and> f1 = f"
    using follow_loop_all_fail [of followings ulower f rem t "[]"] l by simp
  have g: "GetPush ulower f rem now userid followings =
      (if length ret \<noteq> 0
       then (ret, f1\<lparr>DB := snd (DB_Set (DB f1) ''last_update'' userid (VInt64 now))\<rparr>)
       else (ret, f1))"
    using l by (simp add: GetPush_def t_def cursor_of_def)
  show ?thesis
  proof (cases "ret = []")
    case True
    with g db fail show ?thesis
      by (auto simp: t_def)
  next
    case False
    define db' where "db' = snd (DB_Set (DB f) ''last_update'' userid (VInt64 now))"
    from False g db have g': "GetPush ulower f rem now userid followings = (ret, f1\<lparr>DB := db'\<rparr>)"
      by (simp add: db'_def)
    have 1: "set_log db' = set_log (DB f) @ [(''last_update'', userid, VInt64 now)]"
      by (simp add: db'_def DB_Set_log)
    have 2: "\<not> write_fault (DB f) \<Longrightarrow> DB_Get_int64 db' ''last_update'' userid = Inr now"
      by (simp add: db'_def DB_Get_int64_def DB_Set_kv)
    have 3: "\<not> (\<forall>u\<in>set followings. snd (fst (getUserTimeline ulower f rem u t)) \<noteq> None)"
      using fail False by blast
    have 4: "sint (cursor_of (DB f) userid) \<le> sint now \<Longrightarrow>
        sint (cursor_of (DB f) userid) \<le> sint (cursor_of db' userid)"
      by (simp add: db'_def cursor_of_Set)
    from False 1 2 3 4 show ?thesis
      unfolding g' t_def by simp
  qed
qed

theorem GetPush_cursor_witness:
  "fst (GetPush id f_cursor rem_late 1700000060 ''chan'' [''blog'']) \<noteq> [] \<and>
   \<not> write_fault (DB f_cursor) \<and>
   sint (cursor_of (DB f_cursor) ''chan'') \<le> sint (1700000060 :: int64) \<and>
   cursor_of (DB (snd (GetPush id f_cursor rem_late 1700000060 ''chan'' [''blog''])))  ''chan''
     = 1700000060 \<and>
   fst (GetPush id f_cursor (\<lambda>url. HTTPError ''timeout'') 1700000060 ''chan'' [''blog'']) = [] \<and>
   snd (GetPush id f_cursor (\<lambda>url. HTTPError ''timeout'') 1700000060 ''chan'' [''blog''])
     = f_cursor"
proof -
  have ne: "fst (GetPush id f_cursor rem_late 1700000060 ''chan'' [''blog'']) \<noteq> []"
    by (simp add: GetPush_def getUserTimeline_def f_cursor_def rem_late_def late_post_def
      DB_Get_int64_def cache_key_def msgid_of_def post_resources_def DB_Get_bool_def Let_def)
  have wf: "\<not> write_fault (DB f_cursor)"
    by (simp add: f_cursor_def)
  have cu: "cursor_of (DB f_cursor) ''chan'' = 1700000000"
    by (simp add: f_cursor_def cursor_of_def DB_Get_int64_def)
  have fl: "\<forall>u\<in>set [''blog'']. snd (fst (getUserTimeline id f_cursor (\<lambda>url. HTTPError ''timeout'') u
       (cursor_of (DB f_cursor) ''chan''))) \<noteq> None"
    by (simp add: getUserTimeline_def f_cursor_def)
  from GetPush_cursor [of id f_cursor rem_late 1700000060 "''chan''" "[''blog'']"] ne wf cu
  have a: "cursor_of (DB (snd (GetPush id f_cursor rem_late 1700000060 ''chan'' [''blog''])))  ''chan''
     = 1700000060"
    by (simp add: cursor_of_def split: prod.splits)
  from GetPush_cursor [of id f_cursor "\<lambda>url. HTTPError ''timeout''" 1700000060 "''chan''" "[''blog'']"] fl
  have b: "fst (GetPush id f_cursor (\<lambda>url. HTTPError ''timeout'') 1700000060 ''chan'' [''blog'']) = [] \<and>
   snd (GetPush id f_cursor (\<lambda>url. HTTPError ''timeout'') 1700000060 ''chan'' [''blog''])
     = f_cursor"
    by (simp split: prod.splits)
  from ne wf cu a b show ?thesis
    by simp
qed

section \<open>Blocked photos\<close>

lemma photo_loop_URL:
  "map URL (photo_loop ulower db user photos res) =
     map URL res @ filter (\<lambda>u. \<not> is_blocked db user u) photos"
  by (induction photos arbitrary: res) (auto simp: is_blocked_def Let_def)

lemma post_resources_URL:
  "map URL (post_resources ulower db user p) =
     filter (\<lambda>u. \<not> is_blocked db user u) (Photos p) @
     (if VideoURL p \<noteq> [] then [VideoURL p] else [])"
  by (simp add: post_resources_def photo_loop_URL Let_def)

lemma posts_loop_ret_kept: "set ret \<subseteq> set (fst (posts_loop ulower db user time ps c ret))"
proof (induction ps arbitrary: c ret)
  case Nil
  then show ?case by simp
next
  case (Cons q ps)
  show ?case
  proof (cases rule: posts_loop_Cons_cases [of ulower db user time q ps c ret])
    case skip
    with Cons show ?thesis by simp
  next
    case break
    then show ?thesis by simp
  next
    case seen
    with Cons show ?thesis by simp
  next
    case fresh
    have "set ret \<subseteq> set (ret @ (if post_resources ulower db user q \<noteq> []
                  then [ReplyMessage (post_resources ulower db user q) (ShortURL q) None] else []))"
      by auto
    also have "\<dots> \<subseteq> set (fst (posts_loop ulower db user time (q # ps) c ret))"
      unfolding fresh(1) by (rule Cons.IH)
    finally show ?thesis .
  qed
qed

lemma posts_loop_sound:
  "m \<in> set (fst (posts_loop ulower db user time ps c ret)) \<Longrightarrow>
   m \<in> set ret \<or>
   (\<exists>q\<in>set (enumerated time ps).
      m = ReplyMessage (post_resources ulower db user q) (ShortURL q) None \<and>
      post_resources ulower db user q \<noteq> [])"
proof (induction ps arbitrary: c ret)
  case Nil
  then show ?case by simp
next
  case (Cons q ps)
  show ?case
  proof (cases rule: posts_loop_Cons_cases [of ulower db user time q ps c ret])
    case skip
    with Cons show ?thesis by simp
  next
    case break
    with Cons show ?thesis by simp
  next
    case seen
    with Cons.prems Cons.IH [of c ret] show ?thesis by auto
  next
    case fresh
    define c' where "c' = c(cache_key user q \<mapsto> True)"
    define ret' where "ret' = ret @ (if post_resources ulower db user q \<noteq> []
                  then [ReplyMessage (post_resources ulower db user q) (ShortURL q) None] else [])"
    from Cons.prems have "m \<in> set (fst (posts_loop ulower db user time ps c' ret'))"
      unfolding fresh(1) c'_def ret'_def .
    then have "m \<in> set ret' \<or>
        (\<exists>q\<in>set (enumerated time ps).
           m = ReplyMessage (post_resources ulower db user q) (ShortURL q) None \<and>
           post_resources ulower db user q \<noteq> [])"
      by (rule Cons.IH)
    then show ?thesis
      unfolding fresh(2) ret'_def by (auto split: if_splits)
  qed
qed

lemma posts_loop_emits:
  "p \<in> set (enumerated time ps) \<Longrightarrow> c (cache_key user p) = None \<Longrightarrow>
   \<forall>q\<in>set (enumerated time ps). cache_key user q = cache_key user p \<longrightarrow> q = p \<Longrightarrow>
   post_resources ulower db user p \<noteq> [] \<Longrightarrow>
   ReplyMessage (post_resources ulower db user p) (ShortURL p) None
     \<in> set (fst (posts_loop ulower db user time ps c ret))"
proof (induction ps arbitrary: c ret)
  case Nil
  then show ?case by simp
next
  case (Cons q ps)
  show ?case
  proof (cases rule: posts_loop_Cons_cases [of ulower db user time q ps c ret])
    case skip
    with Cons show ?thesis by simp
  next
    case break
    with Cons.prems show ?thesis by simp
  next
    case seen
    with Cons.prems have "p \<noteq> q" by auto
    with Cons.prems seen(2) have in_tl: "p \<in> set (enumerated time ps)"
      and uniq: "\<forall>q\<in>set (enumerated time ps). cache_key user q = cache_key user p \<longrightarrow> q = p"
      by auto
    show ?thesis
      unfolding seen(1) by (rule Cons.IH [of c ret, OF in_tl Cons.prems(2) uniq Cons.prems(4)])
  next
    case fresh
    let ?ret = "ret @ (if post_resources ulower db user q \<noteq> []
                  then [ReplyMessage (post_resources ulower db user q) (ShortURL q) None] else [])"
    show ?thesis
    proof (cases "p = q")
      case True
      with Cons.prems(4) have "ReplyMessage (post_resources ulower db user p) (ShortURL p) None
          \<in> set ?ret"
        by simp
      then show ?thesis
        unfolding fresh(1) using posts_loop_ret_kept by blast
    next
      case False
      with Cons.prems fresh(2) have in_tl: "p \<in> set (enumerated time ps)"
        and uniq: "\<forall>q\<in>set (enumerated time ps). cache_key user q = cache_key user p \<longrightarrow> q = p"
        by auto
      from Cons.prems(3) fresh(2) False have "cache_key user q \<noteq> cache_key user p"
        by auto
      with Cons.prems(2) have fr: "(c(cache_key user q \<mapsto> True)) (cache_key user p) = None"
        by simp
      show ?thesis
        unfolding fresh(1)
        by (rule Cons.IH [of "c(cache_key user q \<mapsto> True)" ?ret, OF in_tl fr uniq Cons.prems(4)])
    qed
  qed
qed

lemma block_entry_kept:
  "kv (DB g) (''block'', k) = Some (VBool True) \<Longrightarrow>
   kv (DB (snd (getUserTimeline ulower g rem user time))) (''block'', k) = Some (VBool True) \<and>
   kv (DB (snd (GetPush ulower g rem now userid followings))) (''block'', k) = Some (VBool True) \<and>
   kv (DB (snd (GoBack g now userid back))) (''block'', k) = Some (VBool True) \<and>
   kv (DB (snd (Block g userid caption))) (''block'', k) = Some (VBool True)"
proof (intro conjI)
  assume a: "kv (DB g) (''block'', k) = Some (VBool True)"
  show "kv (DB (snd (getUserTimeline ulower g rem user time))) (''block'', k) = Some (VBool True)"
    using a by (simp add: getUserTimeline_DB)
  show "kv (DB (snd (GoBack g now userid back))) (''block'', k) = Some (VBool True)"
    using a by (simp add: GoBack_def DB_Set_def Let_def)
  show "kv (DB (snd (Block g userid caption))) (''block'', k) = Some (VBool True)"
    using a by (simp add: Block_def DB_Set_kv Let_def)
  obtain ret f1 where l: "follow_loop ulower g rem (case DB_Get_int64 (DB g) ''last_update'' userid of
                           Inl err \<Rightarrow> 0 | Inr v \<Rightarrow> v) followings [] = (ret, f1)"
    by (metis prod.collapse)
  then have "DB f1 = DB g"
    using follow_loop_DB by (metis snd_conv)
  with l a show "kv (DB (snd (GetPush ulower g rem now userid followings))) (''block'', k) = Some (VBool True)"
    by (simp add: GetPush_def DB_Set_kv)
qed

text \<open>
  C6. \<open>Block\<close> on a store that accepts the write records \<open>true\<close> under the user and the
  fourth segment of the URL, and no later \<open>getUserTimeline\<close>, \<open>GetPush\<close>, \<open>GoBack\<close> or
  \<open>Block\<close> removes it. In every fetcher state \<open>g\<close> that holds the entry, a photo whose URL
  has that fourth segment is blocked for the user; the URLs of the resources built for a
  post are exactly its photos that are not blocked, in order, then its video URL if it has
  one. Every message a fetch returns carries those resources of one enumerated post, and a
  post that is enumerated, not yet in the cache, alone in the feed with its key, and left
  with at least one resource is returned with them.
\<close>

theorem fetch_excludes_blocked:
  "(4 \<le> length (Split url CHR ''/'') \<and> \<not> write_fault (DB f) \<longrightarrow>
      kv (DB (snd (Block f user url))) (''block'', user @ ''@'' @ Split url CHR ''/'' ! 3)
        = Some (VBool True)) \<and>
   (kv (DB g) (''block'', user @ ''@'' @ frag) = Some (VBool True) \<longrightarrow>
      (4 \<le> length (Split u CHR ''/'') \<and> Split u CHR ''/'' ! 3 = frag
         \<longrightarrow> is_blocked (DB g) user u) \<and>
      kv (DB (snd (getUserTimeline ulower g rem user time))) (''block'', user @ ''@'' @ frag)
        = Some (VBool True) \<and>
      kv (DB (snd (GetPush ulower g rem now userid followings))) (''block'', user @ ''@'' @ frag)
        = Some (VBool True) \<and>
      kv (DB (snd (GoBack g now userid back))) (''block'', user @ ''@'' @ frag)
        = Some (VBool True) \<and>
      kv (DB (snd (Block g userid caption))) (''block'', user @ ''@'' @ frag)
        = Some (VBool True)) \<and>
   map URL (post_resources ulower (DB g) user p) =
     filter (\<lambda>u. \<not> is_blocked (DB g) user u) (Photos p) @
     (if VideoURL p \<noteq> [] then [VideoURL p] else []) \<and>
   (OAuthConsumerKey g \<noteq> [] \<and> rem (api_url user (OAuthConsumerKey g)) = Decoded posts \<and>
    Status posts = 200 \<longrightarrow>
      (\<forall>m\<in>set (fst (fst (getUserTimeline ulower g rem user time))).
         \<exists>q\<in>set (enumerated time (Posts posts)).
           m = ReplyMessage (post_resources ulower (DB g) user q) (ShortURL q) None \<and>
           post_resources ulower (DB g) user q \<noteq> []) \<and>
      (p \<in> set (enumerated time (Posts posts)) \<and> cache g (cache_key user p) = None \<and>
       (\<forall>q\<in>set (enumerated time (Posts posts)).
          cache_key user q = cache_key user p \<longrightarrow> q = p) \<and>
       post_resources ulower (DB g) user p \<noteq> []
       \<longrightarrow> ReplyMessage (post_resources ulower (DB g) user p) (ShortURL p) None
             \<in> set (fst (fst (getUserTimeline ulower g rem user time)))))"
proof (intro conjI impI)
  assume "4 \<le> length (Split url CHR ''/'') \<and> \<not> write_fault (DB f)"
  then show "kv (DB (snd (Block f user url))) (''block'', user @ ''@'' @ Split url CHR ''/'' ! 3)
        = Some (VBool True)"
    by (simp add: Block_def DB_Set_kv Let_def)
next
  assume "kv (DB g) (''block'', user @ ''@'' @ frag) = Some (VBool True)"
    and "4 \<le> length (Split u CHR ''/'') \<and> Split u CHR ''/'' ! 3 = frag"
  then show "is_blocked (DB g) user u"
    by (simp add: is_blocked_def DB_Get_bool_def Let_def)
next
  assume a: "kv (DB g) (''block'', user @ ''@'' @ frag) = Some (VBool True)"
  note k = block_entry_kept [OF a, of ulower rem user time now userid followings "back" caption]
  from k show "kv (DB (snd (getUserTimeline ulower g rem user time))) (''block'', user @ ''@'' @ frag)
        = Some (VBool True)" by simp
  from k show "kv (DB (snd (GetPush ulower g rem now userid followings))) (''block'', user @ ''@'' @ frag)
        = Some (VBool True)" by simp
  from k show "kv (DB (snd (GoBack g now userid back))) (''block'', user @ ''@'' @ frag)
        = Some (VBool True)" by simp
  from k show "kv (DB (snd (Block g userid caption))) (''block'', user @ ''@'' @ frag)
        = Some (VBool True)" by simp
next
  show "map URL (post_resources ulower (DB g) user p) =
     filter (\<lambda>u. \<not> is_blocked (DB g) user u) (Photos p) @
     (if VideoURL p \<noteq> [] then [VideoURL p] else [])"
    by (rule post_resources_URL)
next
  assume a: "OAuthConsumerKey g \<noteq> [] \<and> rem (api_url user (OAuthConsumerKey g)) = Decoded posts \<and>
    Status posts = 200"
  then have r: "fst (fst (getUserTimeline ulower g rem user time)) =
      fst (posts_loop ulower (DB g) user time (Posts posts) (cache g) [])"
    by (simp add: getUserTimeline_def split: prod.splits)
  show "\<forall>m\<in>set (fst (fst (getUserTimeline ulower g rem user time))).
         \<exists>q\<in>set (enumerated time (Posts posts)).
           m = ReplyMessage (post_resources ulower (DB g) user q) (ShortURL q) None \<and>
           post_resources ulower (DB g) user q \<noteq> []"
    unfolding r using posts_loop_sound [of _ ulower "DB g" user time "Posts posts" "cache g" "[]"]
    by auto
  assume "p \<in> set (enumerated time (Posts posts)) \<and> cache g (cache_key user p) = None \<and>
       (\<forall>q\<in>set (enumerated time (Posts posts)).
          cache_key user q = cache_key user p \<longrightarrow> q = p) \<and>
       post_resources ulower (DB g) user p \<noteq> []"
  then show "ReplyMessage (post_resources ulower (DB g) user p) (ShortURL p) None
             \<in> set (fst (fst (getUserTimeline ulower g rem user time)))"
    unfolding r using posts_loop_emits [of p time "Posts posts" "cache g" user ulower "DB g" "[]"]
    by blast
qed

theorem fetch_excludes_blocked_witness:
  "4 \<le> length (Split ''https://64.media.tumblr.com/abcfrag/s1280x1920/x.jpg'' CHR ''/'') \<and>
   \<not> write_fault (DB f0) \<and>
   is_blocked (DB g_blocked) ''blog'' ''https://64.media.tumblr.com/abcfrag/s640x960/x.jpg'' \<and>
   map URL (post_resources id (DB f0) ''blog'' two_photos) =
     [''https://64.media.tumblr.com/abcfrag/s640x960/x.jpg'',
      ''https://64.media.tumblr.com/otherfrag/s640x960/y.GIF''] \<and>
   map URL (post_resources id (DB g_blocked) ''blog'' two_photos) =
     [''https://64.media.tumblr.com/otherfrag/s640x960/y.GIF''] \<and>
   fst (fst (getUserTimeline id g_blocked rem_two ''blog'' 0)) =
     [ReplyMessage [Resource ''https://64.media.tumblr.com/otherfrag/s640x960/y.GIF'' TVIDEO
                      ''https://64.media.tumblr.com/otherfrag/s640x960/y.GIF'']
        ''https://tmblr.co/two'' None]"
proof -
  let ?url = "''https://64.media.tumblr.com/abcfrag/s1280x1920/x.jpg''"
  let ?u = "''https://64.media.tumblr.com/abcfrag/s640x960/x.jpg''"
  let ?v = "''https://64.media.tumblr.com/otherfrag/s640x960/y.GIF''"
  let ?posts = "\<lparr>Status = 200, Posts = [two_photos]\<rparr>"
  note w = fetch_excludes_blocked [of ?url f0 "''blog''" g_blocked "''abcfrag''" ?u id
      rem_two 0 0 "''chan''" "[]" 0 "''x''" two_photos ?posts]
  have h1: "4 \<le> length (Split ?url CHR ''/'')" "Split ?url CHR ''/'' ! 3 = ''abcfrag''"
    by simp_all
  have h2: "\<not> write_fault (DB f0)"
    by (simp add: f0_def)
  have h3: "4 \<le> length (Split ?u CHR ''/'')" "Split ?u CHR ''/'' ! 3 = ''abcfrag''"
    by simp_all
  have h4: "4 \<le> length (Split ?v CHR ''/'')" "Split ?v CHR ''/'' ! 3 = ''otherfrag''"
    by simp_all
  from w h1 h2 have e: "kv (DB g_blocked) (''block'', ''blog@abcfrag'') = Some (VBool True)"
    by (simp add: g_blocked_def)
  have kvg: "kv (DB g_blocked) = [(''block'', ''blog@abcfrag'') \<mapsto> VBool True]"
    using h1 by (simp add: g_blocked_def Block_def DB_Set_kv f0_def Let_def)
  from w e h3 have b: "is_blocked (DB g_blocked) ''blog'' ?u"
    by simp
  have nb: "\<not> is_blocked (DB g_blocked) ''blog'' ?v"
    using h4 by (simp add: is_blocked_def DB_Get_bool_def kvg Let_def)
  have nb0: "\<not> is_blocked (DB f0) ''blog'' ?u" "\<not> is_blocked (DB f0) ''blog'' ?v"
    by (simp_all add: is_blocked_def DB_Get_bool_def f0_def Let_def)
  have ph: "Photos two_photos = [?u, ?v]" "VideoURL two_photos = []"
    by (simp_all add: two_photos_def)
  from fetch_excludes_blocked [of ?url f0 "''blog''" f0 "''abcfrag''" ?u id
      rem_two 0 0 "''chan''" "[]" 0 "''x''" two_photos ?posts] nb0 ph
  have r0: "map URL (post_resources id (DB f0) ''blog'' two_photos) = [?u, ?v]"
    by simp
  from w b nb ph have r1: "map URL (post_resources id (DB g_blocked) ''blog'' two_photos) = [?v]"
    by simp
  have kind: "HasSuffix (ToLower id ?v) ''.gif''"
    by code_simp
  have r2: "fst (fst (getUserTimeline id g_blocked rem_two ''blog'' 0)) =
     [ReplyMessage [Resource ?v TVIDEO ?v] ''https://tmblr.co/two'' None]"
    using h3 h4 kind
    by (simp add: getUserTimeline_def g_blocked_def Block_def f0_def rem_two_def
        two_photos_def post_resources_def DB_Get_bool_def DB_Set_kv cache_key_def Let_def
        split: prod.splits)
  from h1 h2 b r0 r1 r2 show ?thesis
    by simp
qed

end
